theory Spec2Isabelle
  imports Main "HOL-Library.Multiset" "HOL-Library.Word"
begin

section \<open>The syscall registry\<close>

text \<open>
  The generator \<^verbatim>\<open>generate_syscalls.py\<close> reads a registry of syscall definitions
  through \<^verbatim>\<open>syscalls.all()\<close> and \<^verbatim>\<open>syscalls.for_arch(arch)\<close>. The module
  \<^verbatim>\<open>syscalls\<close> is not part of the generator; its objects are modelled here by
  the attributes the generator reads: the class (\<^verbatim>\<open>isinstance(obj, syscalls.RegularSyscall)\<close>),
  the per-architecture numbers \<^verbatim>\<open>obj.x86\<close> and \<^verbatim>\<open>obj.x64\<close> (\<^verbatim>\<open>None\<close> when the
  syscall does not exist on the architecture) and the attributes \<^verbatim>\<open>arg1\<close> to \<^verbatim>\<open>arg5\<close>.
  An argument attribute is \<open>Some t\<close> when it is present and a \<^verbatim>\<open>str\<close>, and \<open>None\<close>
  when it is absent or not a string, which is all that
  \<^verbatim>\<open>isinstance(getattr(syscall, 'arg' + str(arg), None), str)\<close> distinguishes.
  Python integers are unbounded, so numbers are \<open>int\<close>.
\<close>

datatype arch = X86 | X64

datatype syscall_class = RegularSyscall | IrregularSyscall

record syscall =
  cls :: syscall_class
  x86 :: "int option"
  x64 :: "int option"
  arg1 :: "string option"
  arg2 :: "string option"
  arg3 :: "string option"
  arg4 :: "string option"
  arg5 :: "string option"

text \<open>The value of \<^verbatim>\<open>syscalls.all()\<close>: the (name, object) pairs in the registry's order.\<close>

type_synonym registry = "(string \<times> syscall) list"

text \<open>\<^verbatim>\<open>getattr(obj, arch)\<close> for the two architecture names the generator table passes.\<close>

fun getattr_arch :: "syscall \<Rightarrow> arch \<Rightarrow> int option" where
  "getattr_arch obj X86 = x86 obj"
| "getattr_arch obj X64 = x64 obj"

text \<open>\<^verbatim>\<open>getattr(syscall, 'arg' + str(arg), None)\<close>, kept when it is a string.\<close>

definition getattr_arg :: "syscall \<Rightarrow> nat \<Rightarrow> string option" where
  "getattr_arg obj arg =
     (if arg = 1 then arg1 obj
      else if arg = 2 then arg2 obj
      else if arg = 3 then arg3 obj
      else if arg = 4 then arg4 obj
      else if arg = 5 then arg5 obj
      else None)"

text \<open>
  Modelled from the spec: \<^verbatim>\<open>syscalls.for_arch(arch)\<close> belongs to the registry module;
  the specification gives it as the sequence of (name, definition) restricted to the
  syscalls defined on \<open>arch\<close>.
\<close>

definition for_arch :: "arch \<Rightarrow> registry \<Rightarrow> registry" where
  "for_arch a reg = filter (\<lambda>(name, obj). getattr_arch obj a \<noteq> None) reg"

section \<open>Strings\<close>

text \<open>
  Syscall names are identifiers in ASCII, on which \<^verbatim>\<open>str.upper()\<close> maps the letters
  \<^verbatim>\<open>a\<close> to \<^verbatim>\<open>z\<close> to \<^verbatim>\<open>A\<close> to \<^verbatim>\<open>Z\<close> and keeps every other character.
\<close>

definition upper_char :: "char \<Rightarrow> char" where
  "upper_char c =
     (case map_of (zip ''abcdefghijklmnopqrstuvwxyz'' ''ABCDEFGHIJKLMNOPQRSTUVWXYZ'') c of
        Some u \<Rightarrow> u
      | None \<Rightarrow> c)"

definition upper :: "string \<Rightarrow> string" where
  "upper s = map upper_char s"

text \<open>The conversion \<^verbatim>\<open>%d\<close> of an integer: its decimal digits, after a minus sign when negative.\<close>

definition digit_char :: "nat \<Rightarrow> char" where
  "digit_char d = ''0123456789'' ! d"

function str_nat :: "nat \<Rightarrow> string" where
  "str_nat n = (if n < 10 then [digit_char n] else str_nat (n div 10) @ [digit_char (n mod 10)])"
  by pat_completeness auto
termination
  by (relation "measure (\<lambda>n. n)") auto

declare str_nat.simps [simp del]

definition str_int :: "int \<Rightarrow> string" where
  "str_int i = (if i < 0 then CHR ''-'' # str_nat (nat (- i)) else str_nat (nat i))"

section \<open>Constant tables\<close>

text \<open>
  \<^verbatim>\<open>arch_syscall_number(arch, syscall)\<close>: the sort key of a registry entry, its number on
  \<open>arch\<close>, or \<open>-1\<close> when the number is \<^verbatim>\<open>None\<close>.
\<close>

definition arch_syscall_number :: "arch \<Rightarrow> string \<times> syscall \<Rightarrow> int" where
  "arch_syscall_number a syscall =
     (case getattr_arch (snd syscall) a of None \<Rightarrow> - 1 | Some s \<Rightarrow> s)"

text \<open>
  \<^verbatim>\<open>sorted(syscalls.all(), key=lambda x: arch_syscall_number(arch, x))\<close>. Python's
  \<^verbatim>\<open>sorted\<close> is a stable sort on the keys; \<open>sort_key\<close> is the stable insertion sort.
\<close>

definition sorted_syscalls :: "arch \<Rightarrow> registry \<Rightarrow> registry" where
  "sorted_syscalls a reg = sort_key (arch_syscall_number a) reg"

text \<open>
  The loop of \<^verbatim>\<open>write_syscall_consts\<close>, with the counter \<^verbatim>\<open>undefined_syscall\<close> passed
  along. Each iteration fixes the pair \<^verbatim>\<open>(name.upper(), enum_number)\<close> that the format
  string receives: the constant the emitted line declares.
\<close>

fun syscall_consts_loop :: "arch \<Rightarrow> int \<Rightarrow> registry \<Rightarrow> (string \<times> int) list" where
  "syscall_consts_loop a undefined_syscall [] = []"
| "syscall_consts_loop a undefined_syscall ((name, obj) # rest) =
     (case getattr_arch obj a of
        Some syscall_number \<Rightarrow>
          (upper name, syscall_number) # syscall_consts_loop a undefined_syscall rest
      | None \<Rightarrow>
          (upper name, undefined_syscall) # syscall_consts_loop a (undefined_syscall - 1) rest)"

definition syscall_consts :: "arch \<Rightarrow> registry \<Rightarrow> (string \<times> int) list" where
  "syscall_consts a reg = syscall_consts_loop a (- 1) (sorted_syscalls a reg)"

text \<open>The line \<^verbatim>\<open>"pub const %s : i32 = %d;\n" % (name.upper(), enum_number)\<close>.\<close>

definition const_line :: "string \<times> int \<Rightarrow> string" where
  "const_line e = ''pub const '' @ fst e @ '' : i32 = '' @ str_int (snd e) @ '';\<newline>''"

text \<open>
  A generator is modelled by the list of strings it passes to \<^verbatim>\<open>f.write\<close>, in order;
  the content of the stream is their concatenation.
\<close>

definition write_syscall_consts :: "arch \<Rightarrow> registry \<Rightarrow> string list" where
  "write_syscall_consts a reg = map const_line (syscall_consts a reg) @ [''\<newline>'']"

text \<open>
  \<^verbatim>\<open>write_syscall_consts_for_tests\<close> repeats the loop with the line
  \<^verbatim>\<open>"pub const RR_%s = %d,\n" % (name.upper(), enum_number)\<close>.
\<close>

fun syscall_consts_for_tests_loop :: "arch \<Rightarrow> int \<Rightarrow> registry \<Rightarrow> (string \<times> int) list" where
  "syscall_consts_for_tests_loop a undefined_syscall [] = []"
| "syscall_consts_for_tests_loop a undefined_syscall ((name, obj) # rest) =
     (case getattr_arch obj a of
        Some syscall_number \<Rightarrow>
          (upper name, syscall_number) # syscall_consts_for_tests_loop a undefined_syscall rest
      | None \<Rightarrow>
          (upper name, undefined_syscall)
            # syscall_consts_for_tests_loop a (undefined_syscall - 1) rest)"

definition syscall_consts_for_tests :: "arch \<Rightarrow> registry \<Rightarrow> (string \<times> int) list" where
  "syscall_consts_for_tests a reg =
     syscall_consts_for_tests_loop a (- 1) (sorted_syscalls a reg)"

definition const_for_tests_line :: "string \<times> int \<Rightarrow> string" where
  "const_for_tests_line e = ''pub const RR_'' @ fst e @ '' = '' @ str_int (snd e) @ '',\<newline>''"

definition write_syscall_consts_for_tests :: "arch \<Rightarrow> registry \<Rightarrow> string list" where
  "write_syscall_consts_for_tests a reg =
     map const_for_tests_line (syscall_consts_for_tests a reg) @ [''\<newline>'']"

section \<open>Name resolution\<close>

definition specializer :: "arch \<Rightarrow> string" where
  "specializer a = (case a of X86 \<Rightarrow> ''x86_arch'' | X64 \<Rightarrow> ''x64_arch'')"

text \<open>The inner function \<^verbatim>\<open>write_case(name)\<close>: one match arm.\<close>

definition write_case :: "string \<Rightarrow> string \<Rightarrow> string" where
  \<open>write_case sp name =
     ''    '' @ sp @ ''::'' @ upper name @ '' => "'' @ name @ ''".into(),\<newline>''\<close>

definition write_syscallname_arch :: "arch \<Rightarrow> registry \<Rightarrow> string list" where
  \<open>write_syscallname_arch a reg =
     [''use std::fmt::Write;\<newline>'',
      ''use crate:: '' @ specializer a @ '';\<newline>'',
      ''\<newline>'',
      ''pub fn syscallname_arch(syscall : i32) -> String {\<newline>'',
      ''  match syscall {\<newline>'']
     @ map (\<lambda>(name, _). write_case (specializer a) name) (for_arch a reg)
     @ [''    _ => {\<newline>'',
        ''      let mut s = String::new();\<newline>'',
        ''      write!(s, "<unknown-syscall-{}>", syscall).unwrap();\<newline>'',
        ''      s\<newline>'',
        ''    }\<newline>'',
        ''  }\<newline>'',
        ''}\<newline>'',
        ''\<newline>'']\<close>

text \<open>
  What the emitted text is as a Rust function: a \<^verbatim>\<open>match\<close> on the parameter with
  one arm per pair (constant, literal), in order, and the arm \<^verbatim>\<open>_\<close> last. The
  function below gives the text of that function for a list of arms, so that the written
  text can be compared with it.
\<close>

definition syscallname_arch_source :: "string \<Rightarrow> (string \<times> string) list \<Rightarrow> string list" where
  \<open>syscallname_arch_source sp arms =
     [''use std::fmt::Write;\<newline>'',
      ''use crate:: '' @ sp @ '';\<newline>'',
      ''\<newline>'',
      ''pub fn syscallname_arch(syscall : i32) -> String {\<newline>'',
      ''  match syscall {\<newline>'']
     @ map (\<lambda>(c, lit). ''    '' @ sp @ ''::'' @ c @ '' => "'' @ lit @ ''".into(),\<newline>'') arms
     @ [''    _ => {\<newline>'',
        ''      let mut s = String::new();\<newline>'',
        ''      write!(s, "<unknown-syscall-{}>", syscall).unwrap();\<newline>'',
        ''      s\<newline>'',
        ''    }\<newline>'',
        ''  }\<newline>'',
        ''}\<newline>'',
        ''\<newline>'']\<close>

text \<open>
  The arms that \<^verbatim>\<open>write_syscallname_arch\<close> writes: one per entry of
  \<^verbatim>\<open>for_arch(arch)\<close>, matching the constant \<^verbatim>\<open>NAME\<close> of the module \<^verbatim>\<open>specializer\<close>
  and returning the name as a literal.
\<close>

definition syscallname_arms :: "arch \<Rightarrow> registry \<Rightarrow> (string \<times> string) list" where
  "syscallname_arms a reg = map (\<lambda>(name, _). (upper name, name)) (for_arch a reg)"

text \<open>
  The constants of the module are those of the generated table, each declared as an
  \<^verbatim>\<open>i32\<close>. The table compiles when every value is in the range of \<^verbatim>\<open>i32\<close> and no
  name is declared twice; \<open>None\<close> stands for a table that does not compile.
\<close>

definition fits_i32 :: "int \<Rightarrow> bool" where
  "fits_i32 v \<longleftrightarrow> - 2147483648 \<le> v \<and> v \<le> 2147483647"

definition rust_consts :: "arch \<Rightarrow> registry \<Rightarrow> (string \<rightharpoonup> int) option" where
  "rust_consts a reg =
     (if list_all (\<lambda>e. fits_i32 (snd e)) (syscall_consts a reg)
         \<and> distinct (map fst (syscall_consts a reg))
      then Some (map_of (syscall_consts a reg))
      else None)"

text \<open>
  A \<^verbatim>\<open>match\<close> takes the first arm whose constant equals the scrutinee and the arm
  \<^verbatim>\<open>_\<close> otherwise, where \<^verbatim>\<open>write!(s, "<unknown-syscall-{}>", syscall)\<close> prints the
  number in decimal. The parameter is an \<^verbatim>\<open>i32\<close>: a word of 32 bits read as a signed
  number. An arm naming a constant that is not declared is a program that does not
  compile, the result \<open>None\<close>.
\<close>

fun match_syscall :: "(string \<rightharpoonup> int) \<Rightarrow> (string \<times> string) list \<Rightarrow> 32 word \<Rightarrow> string option" where
  "match_syscall env [] syscall = Some (''<unknown-syscall-'' @ str_int (sint syscall) @ ''>'')"
| "match_syscall env ((c, lit) # arms) syscall =
     (case env c of
        None \<Rightarrow> None
      | Some v \<Rightarrow> if sint syscall = v then Some lit else match_syscall env arms syscall)"

definition syscallname_arch :: "arch \<Rightarrow> registry \<Rightarrow> 32 word \<Rightarrow> string option" where
  "syscallname_arch a reg syscall =
     (case rust_consts a reg of
        None \<Rightarrow> None
      | Some env \<Rightarrow> match_syscall env (syscallname_arms a reg) syscall)"

section \<open>Argument recorder cases\<close>

text \<open>The inner function \<^verbatim>\<open>write_recorder_for_arg(syscall, arg)\<close>: one line or nothing.\<close>

definition write_recorder_for_arg :: "syscall \<Rightarrow> nat \<Rightarrow> string list" where
  "write_recorder_for_arg obj arg =
     (case getattr_arg obj arg of
        Some arg_descriptor \<Rightarrow>
          [''    syscall_state.reg_parameter<'' @ arg_descriptor @ ''>(''
             @ str_int (int arg) @ '');\<newline>'']
      | None \<Rightarrow> [])"

fun write_syscall_record_cases :: "registry \<Rightarrow> string list" where
  "write_syscall_record_cases [] = []"
| "write_syscall_record_cases ((name, obj) # rest) =
     (if cls obj = RegularSyscall
      then [''  case Arch::'' @ name @ '':\<newline>'']
           @ concat (map (write_recorder_for_arg obj) [1..<6])
           @ [''    return PREVENT_SWITCH;\<newline>'']
      else [])
     @ write_syscall_record_cases rest"

section \<open>Helper functions\<close>

text \<open>The three templates, with \<^verbatim>\<open>${syscall}\<close> substituted.\<close>

definition has_syscall_text :: "string \<Rightarrow> string" where
  \<open>has_syscall_text syscall =
     ''inline bool\<newline>''
     @ ''has_'' @ syscall @ ''_syscall(SupportedArch arch) {\<newline>''
     @ ''  switch (arch) {\<newline>''
     @ ''    case x86:\<newline>''
     @ ''      return X86Arch::'' @ syscall @ '' >= 0;\<newline>''
     @ ''    case x86_64:\<newline>''
     @ ''      return X64Arch::'' @ syscall @ '' >= 0;\<newline>''
     @ ''    default:\<newline>''
     @ ''      DEBUG_ASSERT(0 && "unsupported architecture");\<newline>''
     @ ''      return false;\<newline>''
     @ ''  }\<newline>''
     @ ''}\<newline>''\<close>

definition is_syscall_text :: "string \<Rightarrow> string" where
  \<open>is_syscall_text syscall =
     ''inline bool\<newline>''
     @ ''is_'' @ syscall @ ''_syscall(int syscallno, SupportedArch arch) {\<newline>''
     @ ''  switch (arch) {\<newline>''
     @ ''    case x86:\<newline>''
     @ ''      return syscallno >= 0 && syscallno == X86Arch::'' @ syscall @ '';\<newline>''
     @ ''    case x86_64:\<newline>''
     @ ''      return syscallno >= 0 && syscallno == X64Arch::'' @ syscall @ '';\<newline>''
     @ ''    default:\<newline>''
     @ ''      DEBUG_ASSERT(0 && "unsupported architecture");\<newline>''
     @ ''      return false;\<newline>''
     @ ''  }\<newline>''
     @ ''}\<newline>''\<close>

definition syscall_number_text :: "string \<Rightarrow> string" where
  \<open>syscall_number_text syscall =
     ''inline int\<newline>''
     @ ''syscall_number_for_'' @ syscall @ ''(SupportedArch arch) {\<newline>''
     @ ''  switch (arch) {\<newline>''
     @ ''    case x86:\<newline>''
     @ ''      DEBUG_ASSERT(X86Arch::'' @ syscall @ '' >= 0);\<newline>''
     @ ''      return X86Arch::'' @ syscall @ '';\<newline>''
     @ ''    case x86_64:\<newline>''
     @ ''      DEBUG_ASSERT(X64Arch::'' @ syscall @ '' >= 0);\<newline>''
     @ ''      return X64Arch::'' @ syscall @ '';\<newline>''
     @ ''    default:\<newline>''
     @ ''      DEBUG_ASSERT(0 && "unsupported architecture");\<newline>''
     @ ''      return -1;\<newline>''
     @ ''  }\<newline>''
     @ ''}\<newline>''\<close>

definition write_helpers :: "string \<Rightarrow> string list" where
  "write_helpers syscall =
     [has_syscall_text syscall, is_syscall_text syscall, syscall_number_text syscall]"

definition write_syscall_helper_functions :: "registry \<Rightarrow> string list" where
  "write_syscall_helper_functions reg = concat (map (\<lambda>(name, obj). write_helpers name) reg)"












section \<open>Static assertions\<close>

text \<open>
  The truth value of \<^verbatim>\<open>not obj.x86\<close>: \<^verbatim>\<open>None\<close> and the integer \<open>0\<close> are false in
  a Boolean context, every other integer is true.
\<close>

definition py_not :: "int option \<Rightarrow> bool" where
  "py_not v = (case v of None \<Rightarrow> True | Some n \<Rightarrow> n = 0)"

definition static_assert_line :: "string \<Rightarrow> string" where
  \<open>static_assert_line name =
     ''static_assert(X86Arch::'' @ name @ '' == SYS_'' @ name
       @ '', "Incorrect syscall number for '' @ name @ ''");\<newline>''\<close>

fun write_check_syscall_numbers :: "registry \<Rightarrow> string list" where
  "write_check_syscall_numbers [] = []"
| "write_check_syscall_numbers ((name, obj) # rest) =
     (if py_not (x86 obj) then write_check_syscall_numbers rest
      else static_assert_line name # write_check_syscall_numbers rest)"

section \<open>The entry point\<close>

text \<open>
  \<^verbatim>\<open>os.path.basename\<close> keeps what follows the last slash. \<^verbatim>\<open>os.path.splitext\<close> cuts
  at the last dot of that, unless only dots come before it.
\<close>

definition basename :: "string \<Rightarrow> string" where
  "basename p = rev (takeWhile (\<lambda>c. c \<noteq> CHR ''/'') (rev p))"

definition splitext :: "string \<Rightarrow> string \<times> string" where
  "splitext p =
     (case dropWhile (\<lambda>c. c \<noteq> CHR ''.'') (rev p) of
        [] \<Rightarrow> (p, [])
      | d # before \<Rightarrow>
          if list_ex (\<lambda>c. c \<noteq> CHR ''.'') before
          then (rev before, drop (length before) p)
          else (p, []))"

text \<open>
  The table \<^verbatim>\<open>generators_for\<close>, each generator given by what it writes. The renderer
  \<^verbatim>\<open>assembly_templates.generate\<close> is another module; its output is the parameter
  \<open>assembly\<close>.
\<close>

definition generators_for :: "string list \<Rightarrow> registry \<Rightarrow> (string \<times> string list) list" where
  "generators_for assembly reg =
     [(''AssemblyTemplates'', assembly),
      (''CheckSyscallNumbers'', write_check_syscall_numbers reg),
      (''syscall_consts_x86_generated'', write_syscall_consts X86 reg),
      (''syscall_consts_x64_generated'', write_syscall_consts X64 reg),
      (''syscall_consts_for_tests_x86_generated'', write_syscall_consts_for_tests X86 reg),
      (''syscall_consts_for_tests_x64_generated'', write_syscall_consts_for_tests X64 reg),
      (''syscall_name_arch_x86_generated'', write_syscallname_arch X86 reg),
      (''syscall_name_arch_x64_generated'', write_syscallname_arch X64 reg),
      (''SyscallRecordCase'', write_syscall_record_cases reg),
      (''SyscallHelperFunctions'', write_syscall_helper_functions reg)]"

text \<open>
  \<^verbatim>\<open>main(argv)\<close> on a store of files: a path is mapped to the text that reading the
  file returns, and a path outside the domain does not exist. The result is the store
  afterwards and whether the file was written; \<^verbatim>\<open>argv[0]\<close> of an empty list and a base
  name outside the table raise.
\<close>

datatype error = IndexError | KeyError

type_synonym files = "string \<rightharpoonup> string"

definition main :: "string list \<Rightarrow> registry \<Rightarrow> files \<Rightarrow> string list \<Rightarrow> error + files \<times> bool" where
  "main assembly reg fs argv =
     (case argv of
        [] \<Rightarrow> Inl IndexError
      | filename # _ \<Rightarrow>
          (let base = fst (splitext (basename filename));
               before = (case fs filename of Some content \<Rightarrow> content | None \<Rightarrow> [])
           in case map_of (generators_for assembly reg) base of
                None \<Rightarrow> Inl KeyError
              | Some chunks \<Rightarrow>
                  (let after = concat chunks
                   in if before \<noteq> after then Inr (fs(filename \<mapsto> after), True)
                      else Inr (fs, False))))"

section \<open>Notions used in the statements\<close>

text \<open>
  The values that constant generation gives to the syscalls without a number on the
  architecture, in emission order: each emitted constant is paired with the registry
  entry it was emitted for.
\<close>

definition sentinels :: "arch \<Rightarrow> registry \<Rightarrow> int list" where
  "sentinels a reg =
     map (\<lambda>(syscall, const). snd const)
       (filter (\<lambda>(syscall, const). getattr_arch (snd syscall) a = None)
          (zip (sorted_syscalls a reg) (syscall_consts a reg)))"

text \<open>
  The constant table in the words of the specification, to be compared with the two
  generated tables: the syscalls sorted by their number on the architecture, with \<open>-1\<close> for an
  undefined one; a defined number emitted as it is; an undefined syscall given the next
  sentinel, which starts at \<open>-1\<close> and decreases by one for each undefined syscall met
  before it.
\<close>

definition spec_constant_table :: "arch \<Rightarrow> registry \<Rightarrow> (string \<times> int) list" where
  "spec_constant_table a reg =
     (let order = sort_key (\<lambda>(name, obj). case getattr_arch obj a of Some c \<Rightarrow> c | None \<Rightarrow> - 1) reg
      in map (\<lambda>i.
           (upper (fst (order ! i)),
            case getattr_arch (snd (order ! i)) a of
              Some c \<Rightarrow> c
            | None \<Rightarrow>
                - 1 - int (length (filter (\<lambda>(name, obj). getattr_arch obj a = None)
                                     (take i order)))))
         [0..<length order])"

text \<open>The registry of the specification's scenario.\<close>

definition scenario :: registry where
  "scenario =
     [(''read'', \<lparr>cls = IrregularSyscall, x86 = Some 3, x64 = Some 0,
         arg1 = None, arg2 = None, arg3 = None, arg4 = None, arg5 = None\<rparr>),
      (''write'', \<lparr>cls = IrregularSyscall, x86 = Some 4, x64 = Some 1,
         arg1 = None, arg2 = None, arg3 = None, arg4 = None, arg5 = None\<rparr>),
      (''futex'', \<lparr>cls = IrregularSyscall, x86 = None, x64 = Some 202,
         arg1 = None, arg2 = None, arg3 = None, arg4 = None, arg5 = None\<rparr>)]"


text \<open>
  A registry with both classes, a number \<open>0\<close>, syscalls missing on one architecture and
  argument descriptors at the first, third and fifth position.
\<close>

definition sample :: registry where
  "sample =
     [(''restart_syscall'', \<lparr>cls = IrregularSyscall, x86 = Some 0, x64 = Some 219,
         arg1 = None, arg2 = None, arg3 = None, arg4 = None, arg5 = None\<rparr>),
      (''getpid'', \<lparr>cls = RegularSyscall, x86 = Some 20, x64 = Some 39,
         arg1 = None, arg2 = None, arg3 = None, arg4 = None, arg5 = None\<rparr>),
      (''waitpid'', \<lparr>cls = IrregularSyscall, x86 = Some 7, x64 = None,
         arg1 = None, arg2 = None, arg3 = None, arg4 = None, arg5 = None\<rparr>),
      (''arch_prctl'', \<lparr>cls = IrregularSyscall, x86 = None, x64 = Some 158,
         arg1 = None, arg2 = None, arg3 = None, arg4 = None, arg5 = None\<rparr>),
      (''shmget'', \<lparr>cls = RegularSyscall, x86 = None, x64 = Some 29,
         arg1 = None, arg2 = None, arg3 = None, arg4 = None, arg5 = None\<rparr>),
      (''llseek'', \<lparr>cls = RegularSyscall, x86 = Some 140, x64 = None,
         arg1 = Some ''int'', arg2 = None, arg3 = Some ''loff_t'', arg4 = None,
         arg5 = Some ''long''\<rparr>)]"

section \<open>Shared lemmas on the constant loop\<close>

lemma loop_names: "map fst (syscall_consts_loop a u xs) = map (upper \<circ> fst) xs"
  by (induction a u xs rule: syscall_consts_loop.induct) (auto split: option.splits)

lemma loop_length: "length (syscall_consts_loop a u xs) = length xs"
  by (induction a u xs rule: syscall_consts_loop.induct) (auto split: option.splits)

lemma loop_filter_other:
  "upper name \<notin> set (map (upper \<circ> fst) xs) \<Longrightarrow>
   filter (\<lambda>e. fst e = upper name) (syscall_consts_loop a u xs) = []"
proof -
  assume "upper name \<notin> set (map (upper \<circ> fst) xs)"
  then have "upper name \<notin> set (map fst (syscall_consts_loop a u xs))"
    by (simp add: loop_names)
  then have "\<forall>e\<in>set (syscall_consts_loop a u xs). fst e \<noteq> upper name"
    by force
  then show ?thesis
    by (simp add: filter_empty_conv)
qed

lemma loop_filter_defined:
  "distinct (map (upper \<circ> fst) xs) \<Longrightarrow> (name, obj) \<in> set xs \<Longrightarrow> getattr_arch obj a = Some c \<Longrightarrow>
   filter (\<lambda>e. fst e = upper name) (syscall_consts_loop a u xs) = [(upper name, c)]"
proof (induction a u xs rule: syscall_consts_loop.induct)
  case (1 a u)
  then show ?case by simp
next
  case (2 a u n ob rest)
  show ?case
  proof (cases "(name, obj) = (n, ob)")
    case True
    with "2.prems"(1) have "upper name \<notin> set (map (upper \<circ> fst) rest)" by auto
    then have "filter (\<lambda>e. fst e = upper name) (syscall_consts_loop a k rest) = []" for k
      by (rule loop_filter_other)
    with True "2.prems"(3) show ?thesis by simp
  next
    case False
    with "2.prems"(2) have mem: "(name, obj) \<in> set rest" by auto
    with "2.prems"(1) have ne: "upper n \<noteq> upper name" by force
    from "2.prems"(1) have d: "distinct (map (upper \<circ> fst) rest)" by (simp add: comp_def)
    show ?thesis
    proof (cases "getattr_arch ob a")
      case None
      with "2.IH"(1)[OF None d mem "2.prems"(3)] ne show ?thesis by simp
    next
      case (Some k)
      with "2.IH"(2)[OF Some d mem "2.prems"(3)] ne show ?thesis by simp
    qed
  qed
qed

lemma distinct_sorted_syscalls:
  "distinct (map f (sorted_syscalls a reg)) = distinct (map f reg)"
proof -
  have "mset (map f (sorted_syscalls a reg)) = mset (map f reg)"
    by (simp add: sorted_syscalls_def)
  then show ?thesis by (rule mset_eq_imp_distinct_iff)
qed

lemma set_sorted_syscalls: "set (sorted_syscalls a reg) = set reg"
  by (simp add: sorted_syscalls_def)

lemma consts_filter_defined:
  assumes "distinct (map (upper \<circ> fst) reg)" "(name, obj) \<in> set reg" "getattr_arch obj a = Some c"
  shows "filter (\<lambda>e. fst e = upper name) (syscall_consts a reg) = [(upper name, c)]"
  unfolding syscall_consts_def
  using assms by (intro loop_filter_defined) (simp_all add: distinct_sorted_syscalls set_sorted_syscalls)

lemma map_of_filter_single:
  "filter (\<lambda>e. fst e = k) xs = [(k, v)] \<Longrightarrow> map_of xs k = Some v"
  by (induction xs) (auto split: if_splits simp: filter_empty_conv map_of_eq_None_iff image_iff)

lemma consts_map_of_defined:
  assumes "distinct (map (upper \<circ> fst) reg)" "(name, obj) \<in> set reg" "getattr_arch obj a = Some c"
  shows "map_of (syscall_consts a reg) (upper name) = Some c"
  by (rule map_of_filter_single) (rule consts_filter_defined[OF assms])

lemma write_syscall_consts_member:
  "e \<in> set (syscall_consts a reg) \<Longrightarrow> const_line e \<in> set (write_syscall_consts a reg)"
  by (simp add: write_syscall_consts_def)

lemma loop_sentinels:
  "map (\<lambda>(syscall, const). snd const)
     (filter (\<lambda>(syscall, const). getattr_arch (snd syscall) a = None)
        (zip xs (syscall_consts_loop a u xs)))
   = map (\<lambda>i. u - int i) [0..<length (filter (\<lambda>(name, obj). getattr_arch obj a = None) xs)]"
proof (induction a u xs rule: syscall_consts_loop.induct)
  case (1 a u)
  then show ?case by simp
next
  case (2 a u name obj rest)
  show ?case
  proof (cases "getattr_arch obj a")
    case None
    have "map (\<lambda>i. u - int i) [0..<Suc n] = u # map (\<lambda>i. u - 1 - int i) [0..<n]" for n
      by (simp add: upt_conv_Cons map_Suc_upt [symmetric] del: upt_Suc)
    with None "2.IH"(1)[OF None] show ?thesis by simp
  next
    case (Some k)
    with "2.IH"(2)[OF Some] show ?thesis by simp
  qed
qed

lemma length_filter_sorted:
  "length (filter P (sorted_syscalls a reg)) = length (filter P reg)"
proof -
  have "mset (filter P (sorted_syscalls a reg)) = mset (filter P reg)"
    by (simp add: sorted_syscalls_def)
  then show ?thesis by (metis size_mset)
qed

lemma sentinels_eq:
  "sentinels a reg =
     map (\<lambda>i. - 1 - int i) [0..<length (filter (\<lambda>(name, obj). getattr_arch obj a = None) reg)]"
  by (simp add: sentinels_def syscall_consts_def loop_sentinels length_filter_sorted)

lemma loop_eq: "syscall_consts_for_tests_loop a u xs = syscall_consts_loop a u xs"
  by (induction a u xs rule: syscall_consts_loop.induct) (auto split: option.splits)

lemma loop_index:
  "syscall_consts_loop a u xs =
     map (\<lambda>i. (upper (fst (xs ! i)),
               case getattr_arch (snd (xs ! i)) a of
                 Some c \<Rightarrow> c
               | None \<Rightarrow> u - int (length (filter (\<lambda>(name, obj). getattr_arch obj a = None)
                                            (take i xs)))))
       [0..<length xs]"
proof (induction a u xs rule: syscall_consts_loop.induct)
  case (1 a u)
  then show ?case by simp
next
  case (2 a u name obj rest)
  have split: "[0..<length ((name, obj) # rest)] = 0 # map Suc [0..<length rest]"
    by (simp add: upt_conv_Cons map_Suc_upt del: upt_Suc)
  show ?case
  proof (cases "getattr_arch obj a")
    case None
    show ?thesis
      unfolding split using None "2.IH"(1)[OF None]
      by (auto simp add: comp_def split: option.splits)
  next
    case (Some k)
    show ?thesis
      unfolding split using Some "2.IH"(2)[OF Some]
      by (auto simp add: comp_def split: option.splits)
  qed
qed

lemma consts_spec: "syscall_consts a reg = spec_constant_table a reg"
proof -
  have key: "(\<lambda>(name, obj). case getattr_arch obj a of Some c \<Rightarrow> c | None \<Rightarrow> - 1)
             = arch_syscall_number a"
    by (rule ext) (simp add: arch_syscall_number_def split: prod.splits option.splits)
  show ?thesis
    unfolding syscall_consts_def spec_constant_table_def key Let_def sorted_syscalls_def
    by (rule loop_index)
qed

section \<open>Closed forms of the other generators\<close>

lemma write_check_syscall_numbers_closed:
  "write_check_syscall_numbers reg =
     map (\<lambda>(name, obj). static_assert_line name)
       (filter (\<lambda>(name, obj). x86 obj \<noteq> None \<and> x86 obj \<noteq> Some 0) reg)"
  by (induction reg rule: write_check_syscall_numbers.induct)
     (auto simp: py_not_def split: option.splits)

lemma record_closed:
  "write_syscall_record_cases reg =
     concat (map (\<lambda>(name, obj).
        [''  case Arch::'' @ name @ '':\<newline>'']
        @ map (\<lambda>i. ''    syscall_state.reg_parameter<'' @ the (getattr_arg obj i) @ ''>(''
                      @ str_int (int i) @ '');\<newline>'')
            (filter (\<lambda>i. getattr_arg obj i \<noteq> None) [1, 2, 3, 4, 5])
        @ [''    return PREVENT_SWITCH;\<newline>''])
       (filter (\<lambda>(name, obj). cls obj = RegularSyscall) reg))"
proof (induction reg rule: write_syscall_record_cases.induct)
  case 1
  show ?case by simp
next
  case (2 name obj rest)
  have upt: "[1..<6] = [1, 2, 3, 4, 5::nat]"
    by (simp add: upt_conv_Cons)
  have args: "concat (map (write_recorder_for_arg obj) xs)
      = map (\<lambda>i. ''    syscall_state.reg_parameter<'' @ the (getattr_arg obj i) @ ''>(''
                      @ str_int (int i) @ '');\<newline>'')
            (filter (\<lambda>i. getattr_arg obj i \<noteq> None) xs)" for xs
    by (induction xs) (auto simp: write_recorder_for_arg_def split: option.splits)
  show ?case
    using "2.IH" by (simp only: write_syscall_record_cases.simps upt args) simp
qed

section \<open>Lemmas on the emitted functions and the scenario\<close>


lemma consts_names_distinct:
  assumes "distinct (map (upper \<circ> fst) reg)"
  shows "distinct (map fst (syscall_consts a reg))"
proof -
  have "map fst (syscall_consts a reg) = map (upper \<circ> fst) (sorted_syscalls a reg)"
    by (simp only: syscall_consts_def loop_names)
  with assms show ?thesis
    by (simp only: distinct_sorted_syscalls)
qed

lemma rust_consts_compiles:
  assumes "distinct (map (upper \<circ> fst) reg)"
    and "list_all (\<lambda>e. fits_i32 (snd e)) (syscall_consts a reg)"
  shows "rust_consts a reg = Some (map_of (syscall_consts a reg))"
  using assms(2) consts_names_distinct [OF assms(1), of a]
  by (simp add: rust_consts_def)

lemma match_syscall_find:
  assumes "\<forall>(n, obj) \<in> set xs. \<forall>c. getattr_arch obj a = Some c \<longrightarrow> env (upper n) = Some c"
  shows "match_syscall env (map (\<lambda>(name, _). (upper name, name)) (for_arch a xs)) code =
     Some (case find (\<lambda>(name, obj). getattr_arch obj a = Some (sint code)) xs of
             Some (name, obj) \<Rightarrow> name
           | None \<Rightarrow> ''<unknown-syscall-'' @ str_int (sint code) @ ''>'')"
  using assms
proof (induction xs)
  case Nil
  show ?case by (simp add: for_arch_def)
next
  case (Cons x xs)
  obtain n obj where x: "x = (n, obj)" by (cases x)
  from Cons.prems have rest:
    "\<forall>(n, obj) \<in> set xs. \<forall>c. getattr_arch obj a = Some c \<longrightarrow> env (upper n) = Some c"
    by simp
  note ih = Cons.IH [OF rest]
  show ?case
  proof (cases "getattr_arch obj a")
    case None
    with ih x show ?thesis by (simp add: for_arch_def)
  next
    case (Some c)
    with Cons.prems x have "env (upper n) = Some c" by simp
    with ih x Some show ?thesis by (auto simp add: for_arch_def)
  qed
qed

lemma syscallname_arch_find:
  assumes "distinct (map (upper \<circ> fst) reg)"
    and "list_all (\<lambda>e. fits_i32 (snd e)) (syscall_consts a reg)"
  shows "syscallname_arch a reg code =
     Some (case find (\<lambda>(name, obj). getattr_arch obj a = Some (sint code)) reg of
             Some (name, obj) \<Rightarrow> name
           | None \<Rightarrow> ''<unknown-syscall-'' @ str_int (sint code) @ ''>'')"
proof -
  have env: "\<forall>(n, obj) \<in> set reg. \<forall>c. getattr_arch obj a = Some c \<longrightarrow>
          map_of (syscall_consts a reg) (upper n) = Some c"
    using consts_map_of_defined [OF assms(1)] by auto
  show ?thesis
    unfolding syscallname_arch_def rust_consts_compiles [OF assms] syscallname_arms_def
    using match_syscall_find [OF env] by simp
qed

lemma write_syscallname_arch_source:
  "write_syscallname_arch a reg =
     syscallname_arch_source (specializer a)
       (map (\<lambda>(name, obj). (upper name, name))
          (filter (\<lambda>(name, obj). getattr_arch obj a \<noteq> None) reg))"
  by (simp add: write_syscallname_arch_def syscallname_arch_source_def write_case_def
      for_arch_def comp_def case_prod_unfold)






lemma sint32_eq_numeral_iff:
  "sint (w :: 32 word) = k \<longleftrightarrow> (fits_i32 k \<and> w = word_of_int k)"
proof
  assume h: "sint w = k"
  have "- (2 ^ (LENGTH(32) - 1)) \<le> sint w" by (rule sint_ge)
  moreover have "sint w < 2 ^ (LENGTH(32) - 1)" by (rule sint_lt)
  ultimately have "fits_i32 k" using h by (simp add: fits_i32_def)
  moreover have "w = word_of_int k"
  proof -
    have "(word_of_int k :: 32 word) = word_of_int (sint w)"
      by (simp only: h)
    also have "\<dots> = w" by simp
    finally show ?thesis by (rule sym)
  qed
  ultimately show "fits_i32 k \<and> w = word_of_int k" by simp
next
  assume "fits_i32 k \<and> w = word_of_int k"
  then show "sint w = k"
    by (simp add: fits_i32_def sint_sbintrunc' signed_take_bit_int_eq_self)
qed

lemma scenario_x86: "syscall_consts X86 scenario = [(''FUTEX'', - 1), (''READ'', 3), (''WRITE'', 4)]"
  by (simp add: syscall_consts_def sorted_syscalls_def scenario_def arch_syscall_number_def
      upper_def upper_char_def)

lemma scenario_x64: "syscall_consts X64 scenario = [(''READ'', 0), (''WRITE'', 1), (''FUTEX'', 202)]"
  by (simp add: syscall_consts_def sorted_syscalls_def scenario_def arch_syscall_number_def
      upper_def upper_char_def)

lemma scenario_distinct: "distinct (map (upper \<circ> fst) scenario)"
  by (simp add: scenario_def upper_def upper_char_def)

lemma scenario_x86_fits: "list_all (\<lambda>e. fits_i32 (snd e)) (syscall_consts X86 scenario)"
  by (simp add: scenario_x86 fits_i32_def)

lemma sint32_3: "sint (w :: 32 word) = 3 \<longleftrightarrow> w = 3"
  using sint32_eq_numeral_iff [of w 3] by (simp add: fits_i32_def)

lemma sint32_4: "sint (w :: 32 word) = 4 \<longleftrightarrow> w = 4"
  using sint32_eq_numeral_iff [of w 4] by (simp add: fits_i32_def)

lemma scenario_names:
  "syscallname_arch X86 scenario code =
     Some (if code = 3 then ''read'' else if code = 4 then ''write''
           else ''<unknown-syscall-'' @ str_int (sint code) @ ''>'')"
proof -
  have "find (\<lambda>(name, obj). getattr_arch obj X86 = Some (sint code)) scenario
        = (if sint code = 3 then Some (scenario ! 0)
           else if sint code = 4 then Some (scenario ! 1) else None)"
    by (auto simp add: scenario_def)
  then show ?thesis
    unfolding syscallname_arch_find [OF scenario_distinct scenario_x86_fits] sint32_3 sint32_4
    by (simp add: scenario_def)
qed

section \<open>The claims\<close>

text \<open>
  C1. For either architecture and every syscall of the registry with a defined number \<open>c\<close>
  there, the generated constant table has exactly one entry under the syscall's name
  in upper case, its value is \<open>c\<close>, the table has one entry per registry entry, and the
  line declaring the constant is written. Names are unique and case-normalised in the
  registry, so their upper-case forms are distinct.
\<close>

theorem C1_constant_for_defined_syscall:
  assumes "distinct (map (upper \<circ> fst) reg)"
    and "(name, obj) \<in> set reg"
    and "getattr_arch obj a = Some c"
  shows "filter (\<lambda>e. fst e = upper name) (syscall_consts a reg) = [(upper name, c)]
       \<and> length (syscall_consts a reg) = length reg
       \<and> const_line (upper name, c) \<in> set (write_syscall_consts a reg)"
proof -
  have f: "filter (\<lambda>e. fst e = upper name) (syscall_consts a reg) = [(upper name, c)]"
    using assms by (rule consts_filter_defined)
  then have "(upper name, c) \<in> set (filter (\<lambda>e. fst e = upper name) (syscall_consts a reg))"
    by simp
  then have "(upper name, c) \<in> set (syscall_consts a reg)" by simp
  then have "const_line (upper name, c) \<in> set (write_syscall_consts a reg)"
    by (rule write_syscall_consts_member)
  moreover have "length (syscall_consts a reg) = length reg"
    by (simp add: syscall_consts_def loop_length sorted_syscalls_def)
  ultimately show ?thesis using f by simp
qed

theorem C1_constant_for_defined_syscall_witness:
  "filter (\<lambda>e. fst e = upper ''read'') (syscall_consts X86 scenario) = [(upper ''read'', 3)]
   \<and> length (syscall_consts X86 scenario) = length scenario
   \<and> const_line (upper ''read'', 3) \<in> set (write_syscall_consts X86 scenario)"
proof -
  have d: "distinct (map (upper \<circ> fst) scenario)"
    by (simp add: scenario_def upper_def upper_char_def)
  have m: "(''read'', \<lparr>cls = IrregularSyscall, x86 = Some 3, x64 = Some 0,
         arg1 = None, arg2 = None, arg3 = None, arg4 = None, arg5 = None\<rparr>) \<in> set scenario"
    by (simp add: scenario_def)
  show ?thesis
    by (rule C1_constant_for_defined_syscall [OF d m]) simp
qed

text \<open>
  C2. For either architecture, the values given to the syscalls undefined on it are, in
  emission order, exactly \<open>-1, -2, -3, \<dots>\<close>, one per undefined syscall; they are pairwise
  distinct and strictly negative.
\<close>

theorem C2_sentinel_sequence:
  "sentinels a reg =
     map (\<lambda>i. - 1 - int i) [0..<length (filter (\<lambda>(name, obj). getattr_arch obj a = None) reg)]
   \<and> distinct (sentinels a reg)
   \<and> (\<forall>v \<in> set (sentinels a reg). v < 0)"
proof -
  let ?n = "length (filter (\<lambda>(name, obj). getattr_arch obj a = None) reg)"
  have eq: "sentinels a reg = map (\<lambda>i. - 1 - int i) [0..<?n]"
    by (rule sentinels_eq)
  have "inj_on (\<lambda>i. - 1 - int i) (set [0..<?n])"
    by (rule inj_onI) simp
  then have "distinct (map (\<lambda>i. - 1 - int i) [0..<?n])"
    by (simp add: distinct_map)
  moreover have "\<forall>v \<in> set (map (\<lambda>i. - 1 - int i) [0..<?n]). v < 0"
    by auto
  ultimately show ?thesis using eq by simp
qed

theorem C2_sentinel_sequence_witness:
  "sentinels X86 sample = [- 1, - 2] \<and> distinct (sentinels X86 sample)
   \<and> Max (set (sentinels X86 sample)) < 0"
proof -
  have "[0..<length (filter (\<lambda>(name, obj). getattr_arch obj X86 = None) sample)] = [0, 1]"
    by (simp add: sample_def upt_conv_Cons)
  then show ?thesis using C2_sentinel_sequence [of X86 sample] by simp
qed

text \<open>
  C3. Constants are emitted in the order of the registry sorted by the key "number on the
  architecture, \<open>-1\<close> when undefined": the emitted names follow the sorted list, which is a
  rearrangement of the registry, ascending in the key, and keeps the registry's order
  among the entries of equal key.
\<close>

theorem C3_emission_order:
  "map fst (syscall_consts a reg) = map (upper \<circ> fst) (sorted_syscalls a reg)
   \<and> mset (sorted_syscalls a reg) = mset reg
   \<and> sorted (map (\<lambda>(name, obj). case getattr_arch obj a of Some c \<Rightarrow> c | None \<Rightarrow> - 1)
               (sorted_syscalls a reg))
   \<and> (\<forall>k. filter (\<lambda>(name, obj). (case getattr_arch obj a of Some c \<Rightarrow> c | None \<Rightarrow> - 1) = k)
              (sorted_syscalls a reg)
          = filter (\<lambda>(name, obj). (case getattr_arch obj a of Some c \<Rightarrow> c | None \<Rightarrow> - 1) = k)
              reg)"
proof -
  have key: "(\<lambda>(name, obj). case getattr_arch obj a of Some c \<Rightarrow> c | None \<Rightarrow> - 1)
             = arch_syscall_number a"
    by (rule ext) (simp add: arch_syscall_number_def split: prod.splits option.splits)
  have key2: "(\<lambda>(name, obj). (case getattr_arch obj a of Some c \<Rightarrow> c | None \<Rightarrow> - 1) = k)
             = (\<lambda>y. arch_syscall_number a y = k)" for k
    by (rule ext) (simp add: arch_syscall_number_def split: prod.splits option.splits)
  have "map fst (syscall_consts a reg) = map (upper \<circ> fst) (sorted_syscalls a reg)"
    by (simp add: syscall_consts_def loop_names)
  moreover have "mset (sorted_syscalls a reg) = mset reg"
    by (simp add: sorted_syscalls_def)
  moreover have "sorted (map (arch_syscall_number a) (sorted_syscalls a reg))"
    by (simp add: sorted_syscalls_def)
  moreover have "filter (\<lambda>y. arch_syscall_number a y = k) (sorted_syscalls a reg)
                 = filter (\<lambda>y. arch_syscall_number a y = k) reg" for k
    by (simp add: sorted_syscalls_def sort_key_stable)
  ultimately show ?thesis
    by (simp only: key key2) simp
qed

text \<open>
  C10. For either architecture the generator of constants and its variant for tests
  assign the same ordered sequence of (name, value) pairs, which is the table of the
  specification (same order, numbers as they are, same sentinels); the written lines
  differ in their format only, the variant for tests putting \<open>RR_\<close> before the name.
\<close>

theorem C10_consts_for_tests_same_table:
  "syscall_consts_for_tests a reg = syscall_consts a reg
   \<and> syscall_consts a reg = spec_constant_table a reg
   \<and> write_syscall_consts a reg =
       map (\<lambda>(n, v). ''pub const '' @ n @ '' : i32 = '' @ str_int v @ '';\<newline>'')
         (spec_constant_table a reg) @ [''\<newline>'']
   \<and> write_syscall_consts_for_tests a reg =
       map (\<lambda>(n, v). ''pub const RR_'' @ n @ '' = '' @ str_int v @ '',\<newline>'')
         (spec_constant_table a reg) @ [''\<newline>'']"
proof -
  have t: "syscall_consts_for_tests a reg = syscall_consts a reg"
    by (simp add: syscall_consts_for_tests_def syscall_consts_def loop_eq)
  have l1: "const_line = (\<lambda>(n, v). ''pub const '' @ n @ '' : i32 = '' @ str_int v @ '';\<newline>'')"
    by (rule ext) (simp add: const_line_def split: prod.splits)
  have l2: "const_for_tests_line
            = (\<lambda>(n, v). ''pub const RR_'' @ n @ '' = '' @ str_int v @ '',\<newline>'')"
    by (rule ext) (simp add: const_for_tests_line_def split: prod.splits)
  have w1: "write_syscall_consts a reg = map const_line (spec_constant_table a reg) @ [''\<newline>'']"
    by (simp add: write_syscall_consts_def consts_spec)
  have w2: "write_syscall_consts_for_tests a reg
            = map const_for_tests_line (spec_constant_table a reg) @ [''\<newline>'']"
    by (simp add: write_syscall_consts_for_tests_def t consts_spec)
  show ?thesis
    using t consts_spec [of a reg] w1 w2 unfolding l1 l2 by simp
qed

text \<open>
  C4. The claim asks for one assertion for every syscall with a defined x86 number, a
  number \<open>0\<close> included. The generator tests \<^verbatim>\<open>not obj.x86\<close>, which also holds of
  the number \<open>0\<close>: assertions are written exactly for the syscalls whose x86 number is
  defined and not zero, and a registry holding only \<^verbatim>\<open>restart_syscall\<close>, number \<open>0\<close> on
  x86, gets no assertion.
\<close>

theorem C4_zero_code_not_asserted:
  "write_check_syscall_numbers reg =
     map (\<lambda>(name, obj). static_assert_line name)
       (filter (\<lambda>(name, obj). x86 obj \<noteq> None \<and> x86 obj \<noteq> Some 0) reg)
   \<and> write_check_syscall_numbers
       [(''restart_syscall'', \<lparr>cls = IrregularSyscall, x86 = Some 0, x64 = Some 219,
           arg1 = None, arg2 = None, arg3 = None, arg4 = None, arg5 = None\<rparr>)] = []"
  by (simp add: write_check_syscall_numbers_closed [of reg] py_not_def)

text \<open>
  C8. A case is written for every syscall of class \<^verbatim>\<open>RegularSyscall\<close>, in registry
  order, and for no other syscall. A case is its label, then one registration for each
  of the positions 1 to 5 that carries a descriptor, in increasing order, then one
  \<^verbatim>\<open>return PREVENT_SWITCH;\<close>. A regular syscall without descriptors gets the label and
  the return only.
\<close>

theorem C8_record_cases:
  "write_syscall_record_cases reg =
     concat (map (\<lambda>(name, obj).
        [''  case Arch::'' @ name @ '':\<newline>'']
        @ map (\<lambda>i. ''    syscall_state.reg_parameter<'' @ the (getattr_arg obj i) @ ''>(''
                      @ str_int (int i) @ '');\<newline>'')
            (filter (\<lambda>i. getattr_arg obj i \<noteq> None) [1, 2, 3, 4, 5])
        @ [''    return PREVENT_SWITCH;\<newline>''])
       (filter (\<lambda>(name, obj). cls obj = RegularSyscall) reg))
   \<and> (cls obj = RegularSyscall \<and> (\<forall>i. getattr_arg obj i = None) \<longrightarrow>
        write_syscall_record_cases [(name, obj)] =
          [''  case Arch::'' @ name @ '':\<newline>'', ''    return PREVENT_SWITCH;\<newline>''])
   \<and> (cls obj \<noteq> RegularSyscall \<longrightarrow> write_syscall_record_cases [(name, obj)] = [])"
proof -
  have "cls obj = RegularSyscall \<and> (\<forall>i. getattr_arg obj i = None) \<longrightarrow>
        write_syscall_record_cases [(name, obj)] =
          [''  case Arch::'' @ name @ '':\<newline>'', ''    return PREVENT_SWITCH;\<newline>'']"
    by (simp add: record_closed)
  moreover have "cls obj \<noteq> RegularSyscall \<longrightarrow> write_syscall_record_cases [(name, obj)] = []"
    by simp
  ultimately show ?thesis
    using record_closed [of reg] by simp
qed

theorem C8_record_cases_witness:
  "write_syscall_record_cases sample =
     [''  case Arch::getpid:\<newline>'', ''    return PREVENT_SWITCH;\<newline>'',
      ''  case Arch::shmget:\<newline>'', ''    return PREVENT_SWITCH;\<newline>'',
      ''  case Arch::llseek:\<newline>'',
      ''    syscall_state.reg_parameter<int>(1);\<newline>'',
      ''    syscall_state.reg_parameter<loff_t>(3);\<newline>'',
      ''    syscall_state.reg_parameter<long>(5);\<newline>'',
      ''    return PREVENT_SWITCH;\<newline>'']
   \<and> write_syscall_record_cases
       [(''getpid'', \<lparr>cls = RegularSyscall, x86 = Some 20, x64 = Some 39,
           arg1 = None, arg2 = None, arg3 = None, arg4 = None, arg5 = None\<rparr>)] =
     [''  case Arch::getpid:\<newline>'', ''    return PREVENT_SWITCH;\<newline>'']
   \<and> write_syscall_record_cases
       [(''restart_syscall'', \<lparr>cls = IrregularSyscall, x86 = Some 0, x64 = Some 219,
           arg1 = None, arg2 = None, arg3 = None, arg4 = None, arg5 = None\<rparr>)] = []"
proof -
  let ?getpid = "\<lparr>cls = RegularSyscall, x86 = Some 20, x64 = Some 39,
           arg1 = None, arg2 = None, arg3 = None, arg4 = None, arg5 = None\<rparr>"
  let ?restart = "\<lparr>cls = IrregularSyscall, x86 = Some 0, x64 = Some 219,
           arg1 = None, arg2 = None, arg3 = None, arg4 = None, arg5 = None\<rparr>"
  have r: "cls ?getpid = RegularSyscall \<and> (\<forall>i. getattr_arg ?getpid i = None)"
    by (simp add: getattr_arg_def)
  have i: "cls ?restart \<noteq> RegularSyscall"
    by simp
  note t1 = C8_record_cases [of sample ?getpid "''getpid''"]
  note t0 = C8_record_cases [of sample ?restart "''restart_syscall''"]
  have a: "write_syscall_record_cases [(''getpid'', ?getpid)] =
     [''  case Arch::getpid:\<newline>'', ''    return PREVENT_SWITCH;\<newline>'']"
    using t1 [THEN conjunct2, THEN conjunct1, THEN mp, OF r] by simp
  have b: "write_syscall_record_cases [(''restart_syscall'', ?restart)] = []"
    using t0 [THEN conjunct2, THEN conjunct2, THEN mp, OF i] by simp
  have c: "write_syscall_record_cases sample =
     [''  case Arch::getpid:\<newline>'', ''    return PREVENT_SWITCH;\<newline>'',
      ''  case Arch::shmget:\<newline>'', ''    return PREVENT_SWITCH;\<newline>'',
      ''  case Arch::llseek:\<newline>'',
      ''    syscall_state.reg_parameter<int>(1);\<newline>'',
      ''    syscall_state.reg_parameter<loff_t>(3);\<newline>'',
      ''    syscall_state.reg_parameter<long>(5);\<newline>'',
      ''    return PREVENT_SWITCH;\<newline>'']"
    by (simp add: sample_def getattr_arg_def write_recorder_for_arg_def upt_conv_Cons
        str_int_def str_nat.simps digit_char_def)
  from a b c show ?thesis by (simp only: simp_thms)
qed

text \<open>
  C9. For a file name whose base selects a generator, \<^verbatim>\<open>main\<close> reads the file (the
  empty text when it does not exist), writes the generated text when it differs from
  what was read and leaves the store alone otherwise; run again on the resulting store
  with the same registry, it writes nothing and the store stays the same.
\<close>

theorem C9_compare_then_write:
  assumes g: "map_of (generators_for assembly reg) (fst (splitext (basename filename))) = Some chunks"
  shows "main assembly reg fs (filename # rest) =
           Inr (if (case fs filename of Some content \<Rightarrow> content | None \<Rightarrow> []) = concat chunks
                then (fs, False) else (fs(filename \<mapsto> concat chunks), True))
       \<and> (\<forall>fs' wrote. main assembly reg fs (filename # rest) = Inr (fs', wrote) \<longrightarrow>
             main assembly reg fs' (filename # rest) = Inr (fs', False))"
  using g by (auto simp: main_def Let_def split: option.splits)

theorem C9_compare_then_write_witness:
  "main [] scenario Map.empty [''gen/syscall_consts_x86_generated.rs''] =
     Inr (Map.empty(''gen/syscall_consts_x86_generated.rs'' \<mapsto> concat (write_syscall_consts X86 scenario)), True)
   \<and> main [] scenario
       (Map.empty(''gen/syscall_consts_x86_generated.rs'' \<mapsto> concat (write_syscall_consts X86 scenario)))
       [''gen/syscall_consts_x86_generated.rs''] =
     Inr (Map.empty(''gen/syscall_consts_x86_generated.rs'' \<mapsto> concat (write_syscall_consts X86 scenario)), False)"
proof -
  have b: "fst (splitext (basename ''gen/syscall_consts_x86_generated.rs'')) = ''syscall_consts_x86_generated''"
    by (simp add: basename_def splitext_def)
  have g: "map_of (generators_for [] scenario) (fst (splitext (basename ''gen/syscall_consts_x86_generated.rs'')))
           = Some (write_syscall_consts X86 scenario)"
    unfolding b by (simp add: generators_for_def)
  have ne: "concat (write_syscall_consts X86 scenario) \<noteq> []"
    by (simp add: write_syscall_consts_def)
  note t = C9_compare_then_write [OF g, of Map.empty "[]"]
  have first: "main [] scenario Map.empty [''gen/syscall_consts_x86_generated.rs''] =
     Inr (Map.empty(''gen/syscall_consts_x86_generated.rs'' \<mapsto> concat (write_syscall_consts X86 scenario)), True)"
    using t [THEN conjunct1] ne by simp
  from t [THEN conjunct2, THEN spec, THEN spec, THEN mp, OF first] first
  show ?thesis by (simp only: simp_thms)
qed





text \<open>
  C7, as the claim lists it: on the scenario registry the constants for x86 would come
  out in the order \<^verbatim>\<open>READ\<close>, \<^verbatim>\<open>WRITE\<close>, \<^verbatim>\<open>FUTEX\<close>. They do not: \<^verbatim>\<open>futex\<close> has the
  sort key \<open>-1\<close> and is emitted first.
\<close>

theorem C7_scenario_x86_order_counterexample:
  "syscall_consts X86 scenario \<noteq> [(''READ'', 3), (''WRITE'', 4), (''FUTEX'', - 1)]"
  by (simp add: scenario_x86)

text \<open>
  C7, amended. On the scenario registry the constants for x86 are \<^verbatim>\<open>FUTEX = -1\<close>,
  \<^verbatim>\<open>READ = 3\<close>, \<^verbatim>\<open>WRITE = 4\<close> in this order of emission, those for x64 are
  \<^verbatim>\<open>READ = 0\<close>, \<^verbatim>\<open>WRITE = 1\<close>, \<^verbatim>\<open>FUTEX = 202\<close>, the name function written for
  x86 has the arms of \<^verbatim>\<open>read\<close> and \<^verbatim>\<open>write\<close>, and it maps 3 to \<^verbatim>\<open>read\<close>, 4 to
  \<^verbatim>\<open>write\<close> and every other number, such as 99, to the unknown form.
\<close>

theorem C7_scenario:
  "syscall_consts X86 scenario = [(''FUTEX'', - 1), (''READ'', 3), (''WRITE'', 4)]
   \<and> write_syscall_consts X86 scenario =
       [''pub const FUTEX : i32 = -1;\<newline>'', ''pub const READ : i32 = 3;\<newline>'',
        ''pub const WRITE : i32 = 4;\<newline>'', ''\<newline>'']
   \<and> syscall_consts X64 scenario = [(''READ'', 0), (''WRITE'', 1), (''FUTEX'', 202)]
   \<and> write_syscallname_arch X86 scenario =
       syscallname_arch_source ''x86_arch'' [(''READ'', ''read''), (''WRITE'', ''write'')]
   \<and> syscallname_arch X86 scenario 3 = Some ''read''
   \<and> syscallname_arch X86 scenario 4 = Some ''write''
   \<and> syscallname_arch X86 scenario 99 = Some ''<unknown-syscall-99>''
   \<and> (\<forall>code. code \<noteq> 3 \<and> code \<noteq> 4 \<longrightarrow>
         syscallname_arch X86 scenario code
           = Some (''<unknown-syscall-'' @ str_int (sint code) @ ''>''))"
proof -
  have w: "write_syscall_consts X86 scenario =
       [''pub const FUTEX : i32 = -1;\<newline>'', ''pub const READ : i32 = 3;\<newline>'',
        ''pub const WRITE : i32 = 4;\<newline>'', ''\<newline>'']"
    by (simp add: write_syscall_consts_def const_line_def scenario_x86 str_int_def
        str_nat.simps digit_char_def)
  have src: "write_syscallname_arch X86 scenario =
       syscallname_arch_source ''x86_arch'' [(''READ'', ''read''), (''WRITE'', ''write'')]"
    unfolding write_syscallname_arch_source
    by (simp add: scenario_def specializer_def upper_def upper_char_def)
  have n99: "syscallname_arch X86 scenario 99 = Some ''<unknown-syscall-99>''"
    by (simp add: scenario_names str_int_def str_nat.simps digit_char_def)
  have other: "\<forall>code. code \<noteq> 3 \<and> code \<noteq> 4 \<longrightarrow>
         syscallname_arch X86 scenario code
           = Some (''<unknown-syscall-'' @ str_int (sint code) @ ''>'')"
    by (simp add: scenario_names)
  have n3: "syscallname_arch X86 scenario 3 = Some ''read''"
    by (simp add: scenario_names)
  have n4: "syscallname_arch X86 scenario 4 = Some ''write''"
    by (simp add: scenario_names)
  from scenario_x86 w scenario_x64 src n3 n4 n99 other show ?thesis
    by (intro conjI)
qed

theorem C7_scenario_witness:
  "syscallname_arch X86 scenario 7 = Some (''<unknown-syscall-'' @ str_int (sint (7 :: 32 word)) @ ''>'')"
proof -
  have h: "(7 :: 32 word) \<noteq> 3 \<and> (7 :: 32 word) \<noteq> 4" by simp
  note t = C7_scenario [THEN conjunct2, THEN conjunct2, THEN conjunct2, THEN conjunct2,
      THEN conjunct2, THEN conjunct2, THEN conjunct2, THEN spec, THEN mp, OF h]
  then show ?thesis .
qed

end
